theory Spec2Isabelle
  imports Main "HOL-Library.Word"
begin

section \<open>A shallow embedding of malloc.c\<close>

text \<open>
  The allocator of \<^verbatim>\<open>src/malloc.c\<close> keeps a singly linked list of block headers inside
  one region obtained from \<^verbatim>\<open>sbrk\<close>. The embedding follows the C text function by
  function. It fixes the LP64 data model the program is written for: pointers and
  \<^verbatim>\<open>size_t\<close> are 64-bit words whose arithmetic wraps, \<^verbatim>\<open>uint32_t\<close> is a 32-bit
  word, and \<^verbatim>\<open>header_t\<close> occupies 24 bytes (\<^verbatim>\<open>dsize\<close> at offset 0, \<^verbatim>\<open>magic\<close> at
  offset 8, four bytes of padding, \<^verbatim>\<open>next\<close> at offset 16), little-endian.
  Memory is one flat array of bytes indexed by address, so that a header and user data
  that overlap really share their bytes. Memory protection is not modelled: every
  address can be read and written.
\<close>

subsection \<open>Memory\<close>

type_synonym addr = "64 word"
type_synonym byte = "8 word"
type_synonym memory = "addr \<Rightarrow> byte"

text \<open>\<open>load_bytes m a n\<close> is the little-endian number held by the \<open>n\<close> bytes at \<open>a\<close>.\<close>

primrec load_bytes :: "memory \<Rightarrow> addr \<Rightarrow> nat \<Rightarrow> nat" where
  "load_bytes m a 0 = 0"
| "load_bytes m a (Suc n) = unat (m a) + 256 * load_bytes m (a + 1) n"

text \<open>\<open>store_bytes m a n v\<close> writes the \<open>n\<close> low bytes of \<open>v\<close> at \<open>a\<close>, little-endian.\<close>

definition store_bytes :: "memory \<Rightarrow> addr \<Rightarrow> nat \<Rightarrow> nat \<Rightarrow> memory" where
  "store_bytes m a n v =
     (\<lambda>x. if unat (x - a) < n then of_nat (v div 256 ^ unat (x - a)) else m x)"

definition load64 :: "memory \<Rightarrow> addr \<Rightarrow> 64 word" where
  "load64 m a = of_nat (load_bytes m a 8)"

definition store64 :: "memory \<Rightarrow> addr \<Rightarrow> 64 word \<Rightarrow> memory" where
  "store64 m a v = store_bytes m a 8 (unat v)"

definition load32 :: "memory \<Rightarrow> addr \<Rightarrow> 32 word" where
  "load32 m a = of_nat (load_bytes m a 4)"

definition store32 :: "memory \<Rightarrow> addr \<Rightarrow> 32 word \<Rightarrow> memory" where
  "store32 m a v = store_bytes m a 4 (unat v)"

text \<open>\<^verbatim>\<open>memcpy(dst, src, n)\<close> and \<^verbatim>\<open>memset(dst, c, n)\<close> of the C library.\<close>

definition memcpy :: "memory \<Rightarrow> addr \<Rightarrow> addr \<Rightarrow> 64 word \<Rightarrow> memory" where
  "memcpy m dst src n = (\<lambda>x. if x - dst < n then m (src + (x - dst)) else m x)"

definition memset :: "memory \<Rightarrow> addr \<Rightarrow> byte \<Rightarrow> 64 word \<Rightarrow> memory" where
  "memset m dst c n = (\<lambda>x. if x - dst < n then c else m x)"

subsection \<open>The state of the program\<close>

text \<open>
  \<^verbatim>\<open>heap_start\<close> and \<^verbatim>\<open>heap_end\<close> are the two globals of the program, \<open>mem\<close> is the
  memory. \<^verbatim>\<open>sbrk\<close> belongs to the operating system: \<open>sbrk_answers\<close> lists the values
  its coming calls return, and once the list is used up every call fails with
  \<^verbatim>\<open>(void *) -1\<close>. The allocator's behaviour is thereby defined for every sequence of
  answers of the system.
\<close>

record heap =
  heap_start :: addr
  heap_end :: addr
  mem :: memory
  sbrk_answers :: "addr list"

text \<open>
  A call either returns, or stops the process at a failed \<^verbatim>\<open>assert\<close>, or runs for ever
  (a traversal of a cyclic list).
\<close>

datatype 'a outcome = Returns 'a | Aborts | Diverges

definition NULL :: addr where
  "NULL = 0"

definition HDR :: "64 word" where
  "HDR = 24"

definition MAGIC :: "32 word" where
  "MAGIC = 0xDEADC0DE"

definition SBRK_FAILED :: addr where
  "SBRK_FAILED = - 1"

definition sbrk :: "32 word \<Rightarrow> heap \<Rightarrow> addr \<times> heap" where
  "sbrk increment st =
     (case sbrk_answers st of
        [] \<Rightarrow> (SBRK_FAILED, st)
      | r # rs \<Rightarrow> (r, st\<lparr>sbrk_answers := rs\<rparr>))"


text \<open>The fields of the header at address \<open>h\<close>.\<close>

definition dsize_of :: "heap \<Rightarrow> addr \<Rightarrow> 64 word" where
  "dsize_of st h = load64 (mem st) h"

definition magic_of :: "heap \<Rightarrow> addr \<Rightarrow> 32 word" where
  "magic_of st h = load32 (mem st) (h + 8)"

definition next_of :: "heap \<Rightarrow> addr \<Rightarrow> addr" where
  "next_of st h = load64 (mem st) (h + 16)"

definition set_dsize :: "addr \<Rightarrow> 64 word \<Rightarrow> heap \<Rightarrow> heap" where
  "set_dsize h v st = st\<lparr>mem := store64 (mem st) h v\<rparr>"

definition set_magic :: "addr \<Rightarrow> 32 word \<Rightarrow> heap \<Rightarrow> heap" where
  "set_magic h v st = st\<lparr>mem := store32 (mem st) (h + 8) v\<rparr>"

definition set_next :: "addr \<Rightarrow> addr \<Rightarrow> heap \<Rightarrow> heap" where
  "set_next h v st = st\<lparr>mem := store64 (mem st) (h + 16) v\<rparr>"

subsection \<open>The functions of malloc.c\<close>

definition insert_block :: "addr \<Rightarrow> 64 word \<Rightarrow> addr \<Rightarrow> addr \<Rightarrow> heap \<Rightarrow> heap outcome" where
  "insert_block a dsize prev nxt st =
     (if a = NULL then Aborts
      else if heap_start st = NULL then Aborts
      else
        let st1 = set_dsize a dsize st;
            st2 = set_magic a MAGIC st1;
            st3 = set_next a nxt st2
        in Returns (if prev \<noteq> NULL then set_next prev a st3 else st3))"

definition init_heap :: "64 word \<Rightarrow> heap \<Rightarrow> heap outcome" where
  "init_heap bsize st =
     (let initial_size = HDR + bsize;
          (r, st1) = sbrk (ucast initial_size) st;
          st2 = st1\<lparr>heap_start := r\<rparr>
      in if heap_start st2 = SBRK_FAILED then Returns (st2\<lparr>heap_start := NULL\<rparr>)
         else
           (case insert_block (heap_start st2) 0 NULL NULL st2 of
              Returns st3 \<Rightarrow> Returns (st3\<lparr>heap_end := heap_start st3 + initial_size\<rparr>)
            | Aborts \<Rightarrow> Aborts
            | Diverges \<Rightarrow> Diverges))"

text \<open>\<^verbatim>\<open>expand_heap\<close> returns the C \<^verbatim>\<open>int\<close> 0 on success and -1 on failure.\<close>

definition expand_heap :: "addr \<Rightarrow> 64 word \<Rightarrow> heap \<Rightarrow> (int \<times> heap) outcome" where
  "expand_heap block_start bsize st =
     (if block_start = NULL then Aborts
      else if heap_start st = NULL then Aborts
      else
        let block_end = block_start + bsize
        in if block_end > heap_end st then
             (let expansion = block_end - heap_end st;
                  (res, st1) = sbrk (ucast expansion) st
              in if res = SBRK_FAILED then Returns (- 1, st1)
                 else Returns (0, st1\<lparr>heap_end := heap_end st1 + expansion\<rparr>))
           else Returns (0, st))"

definition valid_header :: "addr \<Rightarrow> heap \<Rightarrow> bool" where
  "valid_header hptr st =
     (if hptr = NULL then True
      else if hptr \<ge> heap_start st \<and> hptr \<le> heap_end st - HDR then magic_of st hptr = MAGIC
      else False)"

text \<open>
  What \<^verbatim>\<open>find_opening\<close> hands back: at line 122 the null pointer, with \<^verbatim>\<open>*prev\<close> and
  \<^verbatim>\<open>*next\<close> never written, and at lines 109 and 118 the address of the opening with
  the two out-parameters set.
\<close>

datatype opening_result = Corrupted | Opening addr addr addr

partial_function (option) find_opening_loop :: "heap \<Rightarrow> 64 word \<Rightarrow> addr \<Rightarrow> opening_result option" where
  "find_opening_loop st bsize cur =
     (let curr_block_size = HDR + dsize_of st cur
      in if next_of st cur = NULL then Some (Opening (cur + curr_block_size) cur NULL)
         else
           let curr_block_end = cur + curr_block_size;
               open_space = next_of st cur - curr_block_end
           in if open_space \<ge> bsize then Some (Opening curr_block_end cur (next_of st cur))
              else
                let cur' = next_of st cur
                in if \<not> valid_header cur' st then Some Corrupted
                   else find_opening_loop st bsize cur')"

definition find_opening :: "64 word \<Rightarrow> heap \<Rightarrow> opening_result outcome" where
  "find_opening bsize st =
     (if heap_start st = NULL then Aborts
      else case find_opening_loop st bsize (heap_start st) of
             None \<Rightarrow> Diverges
           | Some r \<Rightarrow> Returns r)"

definition can_expand :: "addr \<Rightarrow> 64 word \<Rightarrow> heap \<Rightarrow> (bool \<times> heap) outcome" where
  "can_expand block s st =
     (if block = NULL then Aborts
      else if heap_start st = NULL then Aborts
      else
        let new_block_end = block + HDR + s
        in if next_of st block = NULL then
             (case expand_heap block (s + HDR) st of
                Returns (_, st1) \<Rightarrow> Returns (True, st1)
              | Aborts \<Rightarrow> Aborts
              | Diverges \<Rightarrow> Diverges)
           else
             let next_block_start = next_of st block
             in Returns (next_block_start - new_block_end \<ge> 0, st))"

text \<open>
  \<^verbatim>\<open>find_block\<close> returns the block, the null pointer or \<^verbatim>\<open>(void *) -1\<close>; the second
  component is what it has written to \<^verbatim>\<open>*prev\<close>, \<open>None\<close> as long as it has written
  nothing.
\<close>

definition CORRUPT :: addr where
  "CORRUPT = - 1"

partial_function (option) find_block_loop ::
    "heap \<Rightarrow> addr \<Rightarrow> addr \<Rightarrow> addr option \<Rightarrow> (addr \<times> addr option) option" where
  "find_block_loop st target cur prev =
     (if cur \<noteq> NULL then
        (if cur = target then Some (cur, prev)
         else
           let prev' = Some cur;
               cur' = next_of st cur
           in if \<not> valid_header cur' st then Some (CORRUPT, prev')
              else find_block_loop st target cur' prev')
      else Some (NULL, prev))"

definition find_block :: "addr \<Rightarrow> heap \<Rightarrow> (addr \<times> addr option) outcome" where
  "find_block target st =
     (if heap_start st = NULL then Aborts
      else if target = NULL then Aborts
      else case find_block_loop st target (heap_start st) None of
             None \<Rightarrow> Diverges
           | Some r \<Rightarrow> Returns r)"

definition custom_malloc :: "64 word \<Rightarrow> heap \<Rightarrow> (addr \<times> heap) outcome" where
  "custom_malloc s st =
     (let bsize = HDR + s
      in case (if heap_start st = NULL
               then (case init_heap bsize st of
                       Returns st1 \<Rightarrow> Returns (True, st1)
                     | Aborts \<Rightarrow> Aborts
                     | Diverges \<Rightarrow> Diverges)
               else Returns (False, st)) of
           Aborts \<Rightarrow> Aborts
         | Diverges \<Rightarrow> Diverges
         | Returns (just_initialized, st1) \<Rightarrow>
             if heap_start st1 = NULL then Returns (NULL, st1)
             else
               (case find_opening bsize st1 of
                  Aborts \<Rightarrow> Aborts
                | Diverges \<Rightarrow> Diverges
                | Returns Corrupted \<Rightarrow> Returns (NULL, st1)
                | Returns (Opening malloc_block_start prev nxt) \<Rightarrow>
                    if malloc_block_start = NULL then Returns (NULL, st1)
                    else
                      (case (if nxt = NULL \<and> \<not> just_initialized
                             then expand_heap malloc_block_start bsize st1
                             else Returns (0, st1)) of
                         Aborts \<Rightarrow> Aborts
                       | Diverges \<Rightarrow> Diverges
                       | Returns (rc, st2) \<Rightarrow>
                           if rc = - 1 then Returns (NULL, st2)
                           else
                             (case insert_block malloc_block_start s prev nxt st2 of
                                Aborts \<Rightarrow> Aborts
                              | Diverges \<Rightarrow> Diverges
                              | Returns st3 \<Rightarrow> Returns (malloc_block_start + HDR, st3)))))"

text \<open>
  In \<^verbatim>\<open>custom_free\<close> the local \<^verbatim>\<open>prev\<close> is read at line 288. It has been written by
  then: the target is not \<^verbatim>\<open>heap_start\<close>, so \<^verbatim>\<open>find_block\<close> went through line 156
  before it found the block (lemma \<open>find_block_loop_prev\<close>). The model has to give the
  read of a never written \<^verbatim>\<open>prev\<close> some outcome and lets it stop the process.
\<close>

definition custom_free :: "addr \<Rightarrow> heap \<Rightarrow> heap outcome" where
  "custom_free p st =
     (if p = NULL then Returns st
      else if heap_start st = NULL \<or> p - HDR = heap_start st then Returns st
      else
        let target = p - HDR
        in case find_block target st of
             Aborts \<Rightarrow> Aborts
           | Diverges \<Rightarrow> Diverges
           | Returns (block, prev) \<Rightarrow>
               if block = NULL then Returns st
               else if block = CORRUPT then Returns st
               else (case prev of
                       None \<Rightarrow> Aborts
                     | Some pv \<Rightarrow> Returns (set_next pv (next_of st block) st)))"

text \<open>Lines 235 to 243 of \<^verbatim>\<open>custom_realloc\<close>: allocate, copy, free.\<close>

definition realloc_copy :: "addr \<Rightarrow> 64 word \<Rightarrow> addr \<Rightarrow> heap \<Rightarrow> (addr \<times> heap) outcome" where
  "realloc_copy p s old st =
     (case custom_malloc s st of
        Aborts \<Rightarrow> Aborts
      | Diverges \<Rightarrow> Diverges
      | Returns (new, st1) \<Rightarrow>
          if new = NULL then Returns (NULL, st1)
          else
            let st2 = st1\<lparr>mem := memcpy (mem st1) new p (dsize_of st1 old)\<rparr>
            in (case custom_free p st2 of
                  Aborts \<Rightarrow> Aborts
                | Diverges \<Rightarrow> Diverges
                | Returns st3 \<Rightarrow> Returns (new, st3)))"

definition custom_realloc :: "addr \<Rightarrow> 64 word \<Rightarrow> heap \<Rightarrow> (addr \<times> heap) outcome" where
  "custom_realloc p s st =
     (if p = NULL then custom_malloc s st
      else if s = 0 then
        (case custom_free p st of
           Returns st1 \<Rightarrow> Returns (NULL, st1)
         | Aborts \<Rightarrow> Aborts
         | Diverges \<Rightarrow> Diverges)
      else
        let target = p - HDR
        in case find_block target st of
             Aborts \<Rightarrow> Aborts
           | Diverges \<Rightarrow> Diverges
           | Returns (old, prev) \<Rightarrow>
               if old = NULL then Returns (NULL, st)
               else if old = CORRUPT then Returns (NULL, st)
               else
                 (case can_expand old s st of
                    Aborts \<Rightarrow> Aborts
                  | Diverges \<Rightarrow> Diverges
                  | Returns (ok, st1) \<Rightarrow>
                      if ok then Returns (old + HDR, set_dsize old s st1)
                      else realloc_copy p s old st1))"

definition custom_calloc :: "64 word \<Rightarrow> 64 word \<Rightarrow> heap \<Rightarrow> (addr \<times> heap) outcome" where
  "custom_calloc nmemb s st =
     (if nmemb = 0 \<or> s = 0 then Returns (NULL, st)
      else
        let size = nmemb * s
        in case custom_malloc size st of
             Aborts \<Rightarrow> Aborts
           | Diverges \<Rightarrow> Diverges
           | Returns (array, st1) \<Rightarrow>
               if array = NULL then Returns (NULL, st1)
               else Returns (array, st1\<lparr>mem := memset (mem st1) array 0 size\<rparr>))"

subsection \<open>Sequences of calls\<close>

text \<open>
  The four public operations, and a client that calls them one after the other. The
  pointers the calls return are not fed back by the model: the arguments of every
  call are arbitrary, which covers every client.
\<close>

datatype call =
    Malloc "64 word"
  | Realloc addr "64 word"
  | Calloc "64 word" "64 word"
  | Free addr

definition step :: "call \<Rightarrow> heap \<Rightarrow> heap outcome" where
  "step c st =
     (case c of
        Malloc s \<Rightarrow>
          (case custom_malloc s st of
             Returns (_, st1) \<Rightarrow> Returns st1 | Aborts \<Rightarrow> Aborts | Diverges \<Rightarrow> Diverges)
      | Realloc p s \<Rightarrow>
          (case custom_realloc p s st of
             Returns (_, st1) \<Rightarrow> Returns st1 | Aborts \<Rightarrow> Aborts | Diverges \<Rightarrow> Diverges)
      | Calloc n s \<Rightarrow>
          (case custom_calloc n s st of
             Returns (_, st1) \<Rightarrow> Returns st1 | Aborts \<Rightarrow> Aborts | Diverges \<Rightarrow> Diverges)
      | Free p \<Rightarrow> custom_free p st)"

primrec run :: "call list \<Rightarrow> heap \<Rightarrow> heap outcome" where
  "run [] st = Returns st"
| "run (c # cs) st =
     (case step c st of
        Returns st1 \<Rightarrow> run cs st1
      | Aborts \<Rightarrow> Aborts
      | Diverges \<Rightarrow> Diverges)"

text \<open>
  The state in which the program starts: lines 22 and 23 initialise both globals to
  \<^verbatim>\<open>NULL\<close>; the memory and the answers of the system are arbitrary.
\<close>

definition initial :: "memory \<Rightarrow> addr list \<Rightarrow> heap" where
  "initial m answers = \<lparr>heap_start = NULL, heap_end = NULL, mem = m, sbrk_answers = answers\<rparr>"

definition after :: "call list \<Rightarrow> heap \<Rightarrow> heap" where
  "after cs st = (case run cs st of Returns st1 \<Rightarrow> st1 | Aborts \<Rightarrow> st | Diverges \<Rightarrow> st)"

subsection \<open>The two globals over time\<close>

text \<open>
  \<open>grows st st'\<close>: what every operation guarantees about the two globals. The third
  part is the invariant that makes the second one hold across the initialisation:
  as long as \<^verbatim>\<open>heap_start\<close> is null, \<^verbatim>\<open>heap_end\<close> is null too.
\<close>

definition grows :: "heap \<Rightarrow> heap \<Rightarrow> bool" where
  "grows st st' =
     ((heap_start st \<noteq> NULL \<longrightarrow> heap_start st' = heap_start st) \<and>
      heap_end st \<le> heap_end st' \<and>
      (heap_start st' = NULL \<longrightarrow> heap_end st' = NULL))"

definition dormant :: "heap \<Rightarrow> bool" where
  "dormant st = (heap_start st = NULL \<longrightarrow> heap_end st = NULL)"

subsection \<open>The list of headers, abstractly\<close>

text \<open>
  \<open>hlist st a hs\<close>: following the \<^verbatim>\<open>next\<close> fields from \<open>a\<close> visits exactly the
  headers \<open>hs\<close> and then reaches the null pointer.
\<close>

primrec hlist :: "heap \<Rightarrow> addr \<Rightarrow> addr list \<Rightarrow> bool" where
  "hlist st a [] = (a = NULL)"
| "hlist st a (h # hs) = (a = h \<and> h \<noteq> NULL \<and> hlist st (next_of st h) hs)"

text \<open>The address just behind the data of the block at \<open>h\<close>.\<close>

definition block_end :: "heap \<Rightarrow> addr \<Rightarrow> addr" where
  "block_end st h = h + (HDR + dsize_of st h)"






text \<open>The parts of the state a client of the allocator can observe.\<close>

definition same_heap :: "heap \<Rightarrow> heap \<Rightarrow> bool" where
  "same_heap st st' =
     (heap_start st' = heap_start st \<and> heap_end st' = heap_end st \<and> mem st' = mem st)"

text \<open>
  \<open>header_below_top st s\<close>: the place where \<^verbatim>\<open>custom_malloc(s)\<close> would put the new
  header, and the 24 bytes of the header, lie below the top of the address space,
  so that the data pointer of the new block is not the address 0. On a heap that is
  not yet initialised the place follows from the answer of \<^verbatim>\<open>sbrk\<close>, 24 bytes
  behind the dummy header.
\<close>

definition header_below_top :: "heap \<Rightarrow> 64 word \<Rightarrow> bool" where
  "header_below_top st s =
     (if heap_start st = NULL then
        (case sbrk_answers st of
           [] \<Rightarrow> True
         | r # _ \<Rightarrow> r = SBRK_FAILED \<or> unat r + 48 < 2 ^ 64)
      else
        (case find_opening (HDR + s) st of
           Returns (Opening a _ _) \<Rightarrow> unat a + 24 < 2 ^ 64
         | _ \<Rightarrow> True))"

subsection \<open>Concrete heaps\<close>

text \<open>
  A memory of zero bytes in which the system hands out the region at \<^verbatim>\<open>0x1000\<close> and
  then grants three extensions, and one in which it grants none.
\<close>

definition fresh :: heap where
  "fresh = initial (\<lambda>_. 0) [0x1000, 0x103A, 0x1066, 0x109C]"

definition tight :: heap where
  "tight = initial (\<lambda>_. 0) [0x1000]"

text \<open>After \<^verbatim>\<open>a = malloc(10)\<close>: the dummy header at \<^verbatim>\<open>0x1000\<close>, \<open>a = 0x1030\<close>.\<close>

definition one_block :: heap where
  "one_block = after [Malloc 10] fresh"

text \<open>After \<^verbatim>\<open>a = malloc(10); b = malloc(20)\<close>: \<open>a = 0x1030\<close>, \<open>b = 0x1052\<close>.\<close>

definition two_blocks :: heap where
  "two_blocks = after [Malloc 10, Malloc 20] fresh"

text \<open>
  After \<^verbatim>\<open>a = malloc(10); b = malloc(20); c = malloc(30); free(b)\<close>: a gap of 44 bytes
  at \<^verbatim>\<open>0x103A\<close> between the blocks of \<open>a\<close> and \<open>c = 0x107E\<close>.
\<close>

definition with_gap :: heap where
  "with_gap = after [Malloc 10, Malloc 20, Malloc 30, Free 0x1052] fresh"

text \<open>After \<^verbatim>\<open>a = malloc(10)\<close> where the system grants no extension afterwards.\<close>

definition exhausted :: heap where
  "exhausted = after [Malloc 10] tight"

text \<open>The heap \<open>one_block\<close> after the client has overwritten the magic number of \<open>a\<close>.\<close>

definition smashed :: heap where
  "smashed = one_block\<lparr>mem := store32 (mem one_block) 0x1020 0\<rparr>"

text \<open>
  The heap \<open>two_blocks\<close> after the client has written \<^verbatim>\<open>0xAA\<close> to the 10 bytes of
  \<open>a\<close>.
\<close>

definition written :: heap where
  "written = two_blocks\<lparr>mem := memset (mem two_blocks) 0x1030 0xAA 10\<rparr>"

text \<open>
  The state in which lines 235 to 243 would leave the heap \<open>written\<close>, run for \<open>a\<close>
  (\<open>p = 0x1030\<close>, header at \<^verbatim>\<open>0x1018\<close>) and the new size 1000.
\<close>

definition copied :: heap where
  "copied =
     (case realloc_copy 0x1030 1000 0x1018 written of
        Returns (_, st') \<Rightarrow> st' | Aborts \<Rightarrow> written | Diverges \<Rightarrow> written)"

section \<open>Reading what was written\<close>

text \<open>
  A field that was stored is read back, and a store does not change what is read
  from bytes it does not touch. Two ranges of bytes are apart when each start lies,
  modulo \<open>2 ^ 64\<close>, at least the length of the other range behind the other start.
\<close>

lemma unat_diff_swap:
  fixes a b :: addr
  assumes "a \<noteq> b"
  shows "unat (b - a) = 2 ^ 64 - unat (a - b)"
proof -
  have la: "unat a < 2 ^ 64" and lb: "unat b < 2 ^ 64"
    using unsigned_less [of a, where 'a = nat] unsigned_less [of b, where 'a = nat] by simp_all
  have ne: "unat a \<noteq> unat b"
    using assms by (simp add: word_unat_eq_iff)
  have 1: "unat (b - a) = (if unat a \<le> unat b then unat b - unat a else unat b + 2 ^ 64 - unat a)"
    using unat_sub_if' [of b a] by simp
  have 2: "unat (a - b) = (if unat b \<le> unat a then unat a - unat b else unat a + 2 ^ 64 - unat b)"
    using unat_sub_if' [of a b] by simp
  show ?thesis
    using la lb ne unfolding 1 2 by (cases "unat a \<le> unat b") simp_all
qed

lemma apart_byte:
  fixes a b :: addr
  assumes "k \<le> unat (b - a)" "n \<le> unat (a - b)" "i < k"
  shows "n \<le> unat (a + of_nat i - b)"
proof -
  have ne: "a \<noteq> b" using assms by auto
  have lk: "unat (b - a) < 2 ^ 64"
    using unsigned_less [of "b - a", where 'a = nat] by simp
  then have i: "unat (of_nat i :: addr) = i"
    using assms by (simp add: unat_of_nat)
  have "unat (a - b) + i < 2 ^ 64"
    using unat_diff_swap [OF ne] assms lk by simp
  then have "unat ((a - b) + of_nat i) = unat (a - b) + i"
    using i unat_plus_if' [of "a - b" "of_nat i"] by simp
  then have "n \<le> unat ((a - b) + of_nat i)"
    using assms by linarith
  moreover have "a + of_nat i - b = (a - b) + of_nat i" by simp
  ultimately show ?thesis by (simp only:)
qed

lemma load_store_bytes_gen:
  "j + k \<le> n \<Longrightarrow> n \<le> 2 ^ 64 \<Longrightarrow>
   load_bytes (store_bytes m a n v) (a + of_nat j) k = (v div 256 ^ j) mod 256 ^ k"
proof (induction k arbitrary: j)
  case 0
  then show ?case by simp
next
  case (Suc k)
  define x where "x = v div 256 ^ j"
  have j: "unat (of_nat j :: 64 word) = j"
    using Suc.prems by (simp add: unat_of_nat)
  have "v div 256 ^ Suc j = x div 256"
    unfolding x_def by (simp only: power_Suc2 div_mult2_eq)
  then have A: "load_bytes (store_bytes m a n v) (a + of_nat j + 1) k = (x div 256) mod 256 ^ k"
    using Suc.IH [of "Suc j"] Suc.prems by (simp add: ac_simps)
  have B: "unat (store_bytes m a n v (a + of_nat j)) = x mod 256"
    using Suc.prems j by (simp add: store_bytes_def unat_of_nat x_def)
  have "x mod 256 ^ Suc k = 256 * (x div 256 mod 256 ^ k) + x mod 256"
    by (simp only: power_Suc mod_mult2_eq)
  then show ?case
    unfolding x_def [symmetric] using A B by simp
qed

lemma load_store_bytes_same:
  "n \<le> 2 ^ 64 \<Longrightarrow> load_bytes (store_bytes m a n v) a n = v mod 256 ^ n"
  using load_store_bytes_gen [of 0 n n m a v] by simp

lemma load64_store64_same: "load64 (store64 m a v) a = v"
proof -
  have "load_bytes (store_bytes m a 8 (unat v)) a 8 = unat v mod 256 ^ 8"
    by (rule load_store_bytes_same) simp
  moreover have "unat v < 256 ^ 8"
    using unsigned_less [of v, where 'a = nat] by simp
  ultimately show ?thesis
    by (simp add: load64_def store64_def)
qed

lemma load32_store32_same: "load32 (store32 m a v) a = v"
proof -
  have "load_bytes (store_bytes m a 4 (unat v)) a 4 = unat v mod 256 ^ 4"
    by (rule load_store_bytes_same) simp
  moreover have "unat v < 256 ^ 4"
    using unsigned_less [of v, where 'a = nat] by simp
  ultimately show ?thesis
    by (simp add: load32_def store32_def)
qed

lemma load_bytes_cong:
  "(\<And>i. i < k \<Longrightarrow> m (a + of_nat i) = m' (a + of_nat i)) \<Longrightarrow> load_bytes m a k = load_bytes m' a k"
proof (induction k arbitrary: a)
  case 0
  then show ?case by simp
next
  case (Suc k)
  have "m a = m' a" using Suc.prems [of 0] by simp
  moreover have "load_bytes m (a + 1) k = load_bytes m' (a + 1) k"
  proof (rule Suc.IH)
    fix i assume "i < k"
    then show "m (a + 1 + of_nat i) = m' (a + 1 + of_nat i)"
      using Suc.prems [of "Suc i"] by (simp add: ac_simps)
  qed
  ultimately show ?case by simp
qed

lemma load_bytes_store_bytes_apart:
  "k \<le> unat (b - a) \<Longrightarrow> n \<le> unat (a - b) \<Longrightarrow>
   load_bytes (store_bytes m b n v) a k = load_bytes m a k"
proof (rule load_bytes_cong)
  fix i
  assume "k \<le> unat (b - a)" "n \<le> unat (a - b)" "i < k"
  then have "n \<le> unat (a + of_nat i - b)"
    by (rule apart_byte)
  then show "store_bytes m b n v (a + of_nat i) = m (a + of_nat i)"
    by (simp add: store_bytes_def)
qed

lemma load64_store64_apart:
  "8 \<le> unat (b - a) \<Longrightarrow> 8 \<le> unat (a - b) \<Longrightarrow> load64 (store64 m b v) a = load64 m a"
  by (simp add: load64_def store64_def load_bytes_store_bytes_apart)

lemma load64_store32_apart:
  "8 \<le> unat (b - a) \<Longrightarrow> 4 \<le> unat (a - b) \<Longrightarrow> load64 (store32 m b v) a = load64 m a"
  by (simp add: load64_def store32_def load_bytes_store_bytes_apart)

lemma load32_store64_apart:
  "4 \<le> unat (b - a) \<Longrightarrow> 8 \<le> unat (a - b) \<Longrightarrow> load32 (store64 m b v) a = load32 m a"
  by (simp add: load32_def store64_def load_bytes_store_bytes_apart)

lemma load32_store32_apart:
  "4 \<le> unat (b - a) \<Longrightarrow> 4 \<le> unat (a - b) \<Longrightarrow> load32 (store32 m b v) a = load32 m a"
  by (simp add: load32_def store32_def load_bytes_store_bytes_apart)

lemmas mem_simps = load64_store64_same load32_store32_same load64_store64_apart
  load64_store32_apart load32_store64_apart load32_store32_apart

text \<open>The equations that run the program on a concrete heap.\<close>

lemmas run_simps = custom_malloc_def init_heap_def sbrk_def insert_block_def find_opening_def
  find_opening_loop.simps expand_heap_def valid_header_def set_dsize_def set_magic_def
  set_next_def dsize_of_def magic_of_def next_of_def NULL_def HDR_def MAGIC_def
  SBRK_FAILED_def CORRUPT_def Let_def custom_realloc_def custom_free_def find_block_def
  find_block_loop.simps can_expand_def custom_calloc_def realloc_copy_def step_def after_def
  initial_def

section \<open>Block lookup and in-place resizing\<close>

lemma find_block_loop_result:
  assumes "find_block_loop st target cur prev = Some y"
  shows "fst y = target \<or> fst y = NULL \<or> fst y = CORRUPT"
  using assms
  by (rule find_block_loop.raw_induct [rotated,
        where P = "\<lambda>st target cur prev y. fst y = target \<or> fst y = NULL \<or> fst y = CORRUPT"])
     (auto simp: Let_def split: if_splits)

lemma find_block_Returns:
  assumes "find_block target st = Returns (r, pv)"
  shows "heap_start st \<noteq> NULL" "target \<noteq> NULL" "r = target \<or> r = NULL \<or> r = CORRUPT"
  using assms find_block_loop_result [of st target "heap_start st" None "(r, pv)"]
  by (auto simp: find_block_def split: if_splits option.splits)

lemma expand_heap_Returns:
  "block_start \<noteq> NULL \<Longrightarrow> heap_start st \<noteq> NULL \<Longrightarrow>
   \<exists>rc st1. expand_heap block_start bsize st = Returns (rc, st1)"
  by (simp add: expand_heap_def Let_def split: prod.splits)

lemma can_expand_True:
  assumes "block \<noteq> NULL" "heap_start st \<noteq> NULL"
  shows "\<exists>st1. can_expand block s st = Returns (True, st1)"
proof (cases "next_of st block = NULL")
  case True
  obtain rc st1 where "expand_heap block (s + HDR) st = Returns (rc, st1)"
    using expand_heap_Returns [OF assms] by blast
  then show ?thesis
    using assms True by (simp add: can_expand_def)
next
  case False
  then show ?thesis
    using assms by (simp add: can_expand_def)
qed

lemma custom_realloc_found:
  assumes "p \<noteq> NULL" and "s \<noteq> 0"
    and "find_block (p - HDR) st = Returns (old, prev)"
    and "old \<noteq> NULL" and "old \<noteq> CORRUPT"
  shows "\<exists>st'. custom_realloc p s st = Returns (p, st')"
proof -
  have old: "old = p - HDR" and hs: "heap_start st \<noteq> NULL"
    using find_block_Returns [OF assms(3)] assms(4,5) by auto
  obtain st1 where "can_expand old s st = Returns (True, st1)"
    using can_expand_True [OF assms(4) hs] by blast
  then show ?thesis
    using assms old by (simp add: custom_realloc_def)
qed

text \<open>
  Claim C6. Whenever the block lookup of \<^verbatim>\<open>custom_realloc(p, s)\<close> finds the block, the
  eligibility check \<^verbatim>\<open>can_expand\<close> answers true: for a last block without looking at
  the result of \<^verbatim>\<open>expand_heap\<close>, for any other block because an unsigned difference
  is compared with zero. So the call returns the pointer \<open>p\<close> it was given, with the
  recorded size set to \<open>s\<close> in place, and lines 235 to 243 are never run.
\<close>

theorem resize_always_in_place:
  assumes "p \<noteq> NULL" and "s \<noteq> 0"
    and "find_block (p - HDR) st = Returns (old, prev)"
    and "old \<noteq> NULL" and "old \<noteq> CORRUPT"
  shows "\<exists>st1. can_expand old s st = Returns (True, st1) \<and>
           custom_realloc p s st = Returns (p, set_dsize old s st1)"
proof -
  have old: "old = p - HDR" and hs: "heap_start st \<noteq> NULL"
    using find_block_Returns [OF assms(3)] assms(4,5) by auto
  obtain st1 where ce: "can_expand old s st = Returns (True, st1)"
    using can_expand_True [OF assms(4) hs] by blast
  have "custom_realloc p s st = Returns (old + HDR, set_dsize old s st1)"
    using assms ce by (simp add: custom_realloc_def)
  then show ?thesis
    using ce old by simp
qed

theorem resize_always_in_place_witness:
  "\<exists>st1. can_expand 0x1018 1000 two_blocks = Returns (True, st1) \<and>
     custom_realloc 0x1030 1000 two_blocks = Returns (0x1030, set_dsize 0x1018 1000 st1)"
proof -
  have "find_block (0x1030 - HDR) two_blocks = Returns (0x1018, Some 0x1000)"
    by (simp add: two_blocks_def fresh_def run_simps mem_simps)
  then show ?thesis
    using resize_always_in_place [of "0x1030" 1000 two_blocks "0x1018" "Some 0x1000"]
    by (simp add: NULL_def CORRUPT_def)
qed

lemma find_block_loop_hit:
  "cur \<noteq> NULL \<Longrightarrow> find_block_loop st cur cur prev = Some (cur, prev)"
  by (subst find_block_loop.simps) simp

lemma dsize_of_set_dsize: "dsize_of (set_dsize h v st) h = v"
  by (simp add: dsize_of_def set_dsize_def load64_store64_same)

lemma set_dsize_globals:
  "heap_start (set_dsize h v st) = heap_start st" "heap_end (set_dsize h v st) = heap_end st"
  by (simp_all add: set_dsize_def)

lemma header_wrap:
  fixes a :: addr
  assumes "unat a + 24 < 2 ^ 64"
  shows "a + HDR \<noteq> NULL" "a \<noteq> CORRUPT" "a + HDR - HDR = a"
proof -
  have "unat (a + 24) = unat a + 24"
    using assms unat_plus_if' [of a 24] by simp
  then show "a + HDR \<noteq> NULL"
    by (auto simp: HDR_def NULL_def)
  have "unat (- 1 :: addr) = 2 ^ 64 - 1"
    by (simp add: unsigned_minus_1_eq_mask mask_eq_exp_minus_1)
  then show "a \<noteq> CORRUPT"
    using assms by (auto simp: CORRUPT_def)
  show "a + HDR - HDR = a" by simp
qed

text \<open>
  Claim C10. \<^verbatim>\<open>custom_realloc(p, s)\<close> with \<open>s > 0\<close> and \<open>p\<close> the data address of the dummy
  head (\<^verbatim>\<open>heap_start\<close> plus the header size) is not rejected: the lookup finds the
  dummy head at its first step, the recorded size of the dummy header becomes \<open>s\<close> in
  place and \<open>p\<close> is returned, whereas \<^verbatim>\<open>custom_free(p)\<close> refuses to act on the same
  address and leaves the state as it is.
\<close>

theorem resize_of_dummy_head:
  assumes "heap_start st \<noteq> NULL" and "unat (heap_start st) + 24 < 2 ^ 64" and "s \<noteq> 0"
  shows "find_block (heap_start st + HDR - HDR) st = Returns (heap_start st, None) \<and>
         (\<exists>st'. custom_realloc (heap_start st + HDR) s st = Returns (heap_start st + HDR, st') \<and>
                dsize_of st' (heap_start st) = s) \<and>
         custom_free (heap_start st + HDR) st = Returns st"
proof -
  let ?d = "heap_start st"
  note w = header_wrap [OF assms(2)]
  have fb: "find_block (?d + HDR - HDR) st = Returns (?d, None)"
    using assms(1) by (simp add: find_block_def find_block_loop_hit)
  obtain st1 where ce: "can_expand ?d s st = Returns (True, st1)"
    using can_expand_True [OF assms(1) assms(1)] by blast
  have "custom_realloc (?d + HDR) s st = Returns (?d + HDR, set_dsize ?d s st1)"
    using assms w fb ce by (simp add: custom_realloc_def)
  moreover have "custom_free (?d + HDR) st = Returns st"
    by (simp add: custom_free_def)
  ultimately show ?thesis
    using fb by (simp add: dsize_of_set_dsize)
qed

theorem resize_of_dummy_head_witness:
  "dsize_of one_block 0x1000 = 0 \<and>
   find_block (0x1000 + HDR - HDR) one_block = Returns (0x1000, None) \<and>
   (\<exists>st'. custom_realloc (0x1000 + HDR) 7 one_block = Returns (0x1000 + HDR, st') \<and>
          dsize_of st' 0x1000 = 7) \<and>
   custom_free (0x1000 + HDR) one_block = Returns one_block"
proof -
  have hs: "heap_start one_block = 0x1000"
    by (simp add: one_block_def fresh_def run_simps mem_simps)
  have d: "dsize_of one_block 0x1000 = 0"
    by (simp add: one_block_def fresh_def run_simps mem_simps)
  show ?thesis
    using resize_of_dummy_head [of one_block 7] hs d by (simp add: NULL_def)
qed

section \<open>Release\<close>

text \<open>
  Claim C8. \<^verbatim>\<open>custom_free(p)\<close> returns without changing anything when \<open>p\<close> is null,
  when the heap was never initialised, when the candidate header \<open>p - 24\<close> is the
  dummy head at \<^verbatim>\<open>heap_start\<close>, when the lookup does not find the candidate header,
  and when the lookup reports corruption. It returns normally in each of these cases:
  the caller is told nothing.
\<close>

theorem release_no_op:
  assumes "p = NULL \<or> heap_start st = NULL \<or> p - HDR = heap_start st \<or>
           (\<exists>prev. find_block (p - HDR) st = Returns (NULL, prev)) \<or>
           (\<exists>prev. find_block (p - HDR) st = Returns (CORRUPT, prev))"
  shows "custom_free p st = Returns st"
  using assms by (auto simp: custom_free_def)

theorem release_no_op_witness:
  "custom_free NULL one_block = Returns one_block \<and>
   custom_free 0x1030 fresh = Returns fresh \<and>
   custom_free 0x1018 one_block = Returns one_block \<and>
   custom_free 0x2000 one_block = Returns one_block \<and>
   custom_free 0x1030 smashed = Returns smashed"
proof -
  have 1: "heap_start fresh = NULL"
    by (simp add: fresh_def initial_def)
  have 2: "0x1018 - HDR = heap_start one_block"
    by (simp add: one_block_def fresh_def run_simps mem_simps)
  have 3: "find_block (0x2000 - HDR) one_block = Returns (NULL, Some 0x1018)"
    by (simp add: one_block_def fresh_def run_simps mem_simps)
  have 4: "find_block (0x1030 - HDR) smashed = Returns (CORRUPT, Some 0x1000)"
    by (simp add: smashed_def one_block_def fresh_def run_simps mem_simps)
  show ?thesis
    using release_no_op [of NULL one_block] release_no_op [of "0x1030" fresh]
      release_no_op [of "0x1018" one_block] release_no_op [of "0x2000" one_block]
      release_no_op [of "0x1030" smashed] 1 2 3 4
    by simp
qed

subsection \<open>Where the process stops\<close>

lemma find_block_loop_prev:
  assumes "find_block_loop st target cur prev = Some y"
  shows "fst y \<noteq> NULL \<and> fst y \<noteq> CORRUPT \<and> (cur \<noteq> target \<or> prev \<noteq> None) \<longrightarrow> snd y \<noteq> None"
  using assms
  by (rule find_block_loop.raw_induct [rotated,
        where P = "\<lambda>st target cur prev y.
          fst y \<noteq> NULL \<and> fst y \<noteq> CORRUPT \<and> (cur \<noteq> target \<or> prev \<noteq> None) \<longrightarrow> snd y \<noteq> None"])
     (auto simp: Let_def split: if_splits)

text \<open>
  The only way in which \<^verbatim>\<open>custom_free\<close> stops the process is the assertion of
  \<^verbatim>\<open>find_block\<close> on its target, for the pointer whose candidate header is the
  address 0. The read of \<^verbatim>\<open>prev\<close> at line 288 never finds it unwritten.
\<close>

lemma custom_free_Aborts:
  "custom_free p st = Aborts \<longleftrightarrow> p \<noteq> NULL \<and> heap_start st \<noteq> NULL \<and> p - HDR \<noteq> heap_start st \<and> p - HDR = NULL"
proof
  assume a: "custom_free p st = Aborts"
  then have p: "p \<noteq> NULL" "heap_start st \<noteq> NULL" "p - HDR \<noteq> heap_start st"
    by (auto simp: custom_free_def split: if_splits)
  show "p \<noteq> NULL \<and> heap_start st \<noteq> NULL \<and> p - HDR \<noteq> heap_start st \<and> p - HDR = NULL"
  proof (cases "find_block (p - HDR) st")
    case Aborts
    then show ?thesis
      using p by (auto simp: find_block_def split: if_splits option.splits)
  next
    case Diverges
    then show ?thesis
      using a p by (simp add: custom_free_def)
  next
    case (Returns r)
    obtain b pv where r: "r = (b, pv)" by (cases r)
    have loop: "find_block_loop st (p - HDR) (heap_start st) None = Some (b, pv)"
      using Returns r by (auto simp: find_block_def split: if_splits option.splits)
    have "b \<noteq> NULL" "b \<noteq> CORRUPT" "pv = None"
      using a p Returns r by (auto simp: custom_free_def Let_def split: if_splits option.splits)
    moreover have "heap_start st \<noteq> p - HDR"
      using p by auto
    ultimately show ?thesis
      using find_block_loop_prev [OF loop] by simp
  qed
next
  assume "p \<noteq> NULL \<and> heap_start st \<noteq> NULL \<and> p - HDR \<noteq> heap_start st \<and> p - HDR = NULL"
  then show "custom_free p st = Aborts"
    by (auto simp: custom_free_def find_block_def)
qed

text \<open>
  \<^verbatim>\<open>custom_realloc\<close> has no check of \<^verbatim>\<open>heap_start\<close> of its own: called with a pointer
  and a size that are not null before the first allocation, it runs into the
  assertion of \<^verbatim>\<open>find_block\<close>.
\<close>

lemma custom_realloc_before_init:
  "p \<noteq> NULL \<Longrightarrow> s \<noteq> 0 \<Longrightarrow> heap_start st = NULL \<Longrightarrow> custom_realloc p s st = Aborts"
  by (simp add: custom_realloc_def find_block_def)

section \<open>Zero-initialised allocation\<close>

lemma memset_inside: "i < n \<Longrightarrow> memset m dst c n (dst + i) = c"
  by (simp add: memset_def)

text \<open>
  Claim C7. \<^verbatim>\<open>custom_calloc(n, e)\<close> returns null when \<open>n\<close> or \<open>e\<close> is zero. Otherwise it
  computes \<open>n * e\<close> (in \<^verbatim>\<open>size_t\<close>, so modulo \<open>2 ^ 64\<close>), calls \<^verbatim>\<open>custom_malloc\<close>
  with it, returns null if that allocation returns null, and otherwise returns the
  pointer of that allocation, with every one of the \<open>n * e\<close> bytes from that pointer on
  equal to zero and the rest of the memory as the allocation left it.
\<close>

theorem zero_allocate:
  "(n = 0 \<or> e = 0 \<longrightarrow> custom_calloc n e st = Returns (NULL, st)) \<and>
   (n \<noteq> 0 \<and> e \<noteq> 0 \<and> custom_malloc (n * e) st = Returns (NULL, st1) \<longrightarrow>
      custom_calloc n e st = Returns (NULL, st1)) \<and>
   (n \<noteq> 0 \<and> e \<noteq> 0 \<and> custom_malloc (n * e) st = Returns (p, st1) \<and> p \<noteq> NULL \<longrightarrow>
      (\<exists>st2. custom_calloc n e st = Returns (p, st2) \<and>
             (\<forall>i. i < n * e \<longrightarrow> mem st2 (p + i) = 0) \<and>
             (\<forall>x. \<not> x - p < n * e \<longrightarrow> mem st2 x = mem st1 x) \<and>
             heap_start st2 = heap_start st1 \<and> heap_end st2 = heap_end st1))"
  by (simp add: custom_calloc_def memset_def)

theorem zero_allocate_witness:
  "custom_calloc 0 8 one_block = Returns (NULL, one_block) \<and>
   custom_calloc 8 0 one_block = Returns (NULL, one_block) \<and>
   custom_calloc 3 4 exhausted = Returns (NULL, exhausted) \<and>
   (\<exists>st2. custom_calloc 3 4 fresh = Returns (0x1030, st2) \<and>
          (\<forall>i. i < 3 * 4 \<longrightarrow> mem st2 (0x1030 + i) = 0) \<and>
          (\<forall>x. \<not> x - 0x1030 < 3 * 4 \<longrightarrow> mem st2 x = mem (after [Malloc 12] fresh) x) \<and>
          heap_start st2 = heap_start (after [Malloc 12] fresh) \<and>
          heap_end st2 = heap_end (after [Malloc 12] fresh))"
proof -
  have 1: "custom_malloc (3 * 4) fresh = Returns (0x1030, after [Malloc 12] fresh)"
    by (simp add: fresh_def run_simps mem_simps)
  have 2: "custom_malloc (3 * 4) exhausted = Returns (NULL, exhausted)"
    by (simp add: exhausted_def tight_def run_simps mem_simps)
  show ?thesis
    using zero_allocate [of 0 8 one_block] zero_allocate [of 3 4 exhausted exhausted] zero_allocate [of 8 0 one_block]
      zero_allocate [of 3 4 fresh "after [Malloc 12] fresh" "0x1030"] 1 2
    by (simp add: NULL_def)
qed

section \<open>The heap bounds over a run\<close>

lemma sbrk_globals:
  "sbrk n st = (r, st1) \<Longrightarrow> heap_start st1 = heap_start st \<and> heap_end st1 = heap_end st \<and> mem st1 = mem st"
  by (auto simp: sbrk_def split: list.splits)

lemma insert_block_globals:
  "insert_block a d prev nxt st = Returns st1 \<Longrightarrow>
   heap_start st1 = heap_start st \<and> heap_end st1 = heap_end st \<and> a \<noteq> NULL"
  by (auto simp: insert_block_def Let_def set_dsize_def set_magic_def set_next_def split: if_splits)

lemma init_heap_grows:
  assumes "init_heap bsize st = Returns st1" "heap_start st = NULL" "heap_end st = NULL"
  shows "heap_end st \<le> heap_end st1 \<and> (heap_start st1 = NULL \<longrightarrow> heap_end st1 = NULL)"
proof -
  obtain r st0 where sb: "sbrk (ucast (HDR + bsize)) st = (r, st0)"
    by (cases "sbrk (ucast (HDR + bsize)) st")
  note g = sbrk_globals [OF sb]
  show ?thesis
  proof (cases "r = SBRK_FAILED")
    case True
    then show ?thesis
      using assms sb g by (auto simp: init_heap_def Let_def)
  next
    case False
    then obtain st3 where ib: "insert_block r 0 NULL NULL (st0\<lparr>heap_start := r\<rparr>) = Returns st3"
      and st1: "st1 = st3\<lparr>heap_end := heap_start st3 + (HDR + bsize)\<rparr>"
      using assms sb by (auto simp: init_heap_def Let_def split: outcome.splits)
    have "heap_start st3 = r" "r \<noteq> NULL"
      using insert_block_globals [OF ib] by simp_all
    then show ?thesis
      using assms st1 by (simp add: NULL_def)
  qed
qed

lemma expand_heap_grows:
  assumes "expand_heap b bsize st = Returns (rc, st1)"
  shows "heap_start st1 = heap_start st \<and> heap_end st \<le> heap_end st1 \<and> heap_start st \<noteq> NULL"
proof (cases "b + bsize > heap_end st")
  case True
  obtain r st0 where sb: "sbrk (ucast (b + bsize - heap_end st)) st = (r, st0)"
    by (cases "sbrk (ucast (b + bsize - heap_end st)) st")
  note g = sbrk_globals [OF sb]
  show ?thesis
    using assms True sb g
    by (auto simp: expand_heap_def Let_def split: if_splits)
next
  case False
  then show ?thesis
    using assms by (auto simp: expand_heap_def Let_def split: if_splits)
qed

lemma grows_refl: "dormant st \<Longrightarrow> grows st st"
  by (simp add: grows_def dormant_def)

lemma grows_trans: "grows st st1 \<Longrightarrow> grows st1 st2 \<Longrightarrow> grows st st2"
  by (auto simp: grows_def)

lemma grows_dormant: "grows st st1 \<Longrightarrow> dormant st1"
  by (simp add: grows_def dormant_def)

lemma custom_malloc_grows:
  assumes "custom_malloc s st = Returns (p, st')" "dormant st"
  shows "grows st st'"
proof -
  define bsize where "bsize = HDR + s"
  have stage2: "grows st1 st'" if "dormant st1" "heap_start st1 \<noteq> NULL"
    and r: "(case find_opening bsize st1 of
                  Aborts \<Rightarrow> Aborts
                | Diverges \<Rightarrow> Diverges
                | Returns Corrupted \<Rightarrow> Returns (NULL, st1)
                | Returns (Opening malloc_block_start prev nxt) \<Rightarrow>
                    if malloc_block_start = NULL then Returns (NULL, st1)
                    else
                      (case (if nxt = NULL \<and> \<not> ji
                             then expand_heap malloc_block_start bsize st1
                             else Returns (0, st1)) of
                         Aborts \<Rightarrow> Aborts
                       | Diverges \<Rightarrow> Diverges
                       | Returns (rc, st2) \<Rightarrow>
                           if rc = - 1 then Returns (NULL, st2)
                           else
                             (case insert_block malloc_block_start s prev nxt st2 of
                                Aborts \<Rightarrow> Aborts
                              | Diverges \<Rightarrow> Diverges
                              | Returns st3 \<Rightarrow> Returns (malloc_block_start + HDR, st3)))) = Returns (p, st')"
    for st1 ji
  proof (cases "find_opening bsize st1")
    case (Returns op)
    show ?thesis
    proof (cases op)
      case Corrupted
      then show ?thesis using r Returns that(1) by (simp add: grows_refl)
    next
      case (Opening a prev nxt)
      show ?thesis
      proof (cases "a = NULL")
        case True
        then show ?thesis using r Returns Opening that(1) by (simp add: grows_refl)
      next
        case False
        obtain rc st2 where e: "(if nxt = NULL \<and> \<not> ji then expand_heap a bsize st1 else Returns (0, st1)) = Returns (rc, st2)"
          using r Returns Opening False by (auto split: outcome.splits)
        have g12: "heap_start st2 = heap_start st1 \<and> heap_end st1 \<le> heap_end st2"
          using e expand_heap_grows [of a bsize st1 rc st2] by (auto split: if_splits)
        have "heap_start st' = heap_start st2 \<and> heap_end st' = heap_end st2"
          using r Returns Opening False e insert_block_globals [of a s prev nxt st2]
          by (auto split: outcome.splits if_splits)
        then show ?thesis
          using g12 that(2) by (simp add: grows_def)
      qed
    qed
  next
    case Aborts
    then show ?thesis using r by simp
  next
    case Diverges
    then show ?thesis using r by simp
  qed
  show ?thesis
  proof (cases "heap_start st = NULL")
    case False
    then show ?thesis
      using assms stage2 [of st False]
      by (simp add: custom_malloc_def bsize_def [symmetric] Let_def)
  next
    case True
    then obtain st1 where ih: "init_heap bsize st = Returns st1"
      using assms by (auto simp: custom_malloc_def bsize_def [symmetric] Let_def split: outcome.splits)
    have he: "heap_end st = NULL" using True assms(2) by (simp add: dormant_def)
    note g = init_heap_grows [OF ih True he]
    have g01: "grows st st1"
      using g True by (simp add: grows_def)
    show ?thesis
    proof (cases "heap_start st1 = NULL")
      case True
      then show ?thesis
        using assms \<open>heap_start st = NULL\<close> ih g01
        by (simp add: custom_malloc_def bsize_def [symmetric] Let_def)
    next
      case False
      have "grows st1 st'"
        using assms \<open>heap_start st = NULL\<close> ih False stage2 [of st1 True] grows_dormant [OF g01]
        by (simp add: custom_malloc_def bsize_def [symmetric] Let_def)
      then show ?thesis
        using g01 grows_trans by blast
    qed
  qed
qed

lemma custom_free_grows:
  assumes "custom_free p st = Returns st'" "dormant st"
  shows "grows st st'"
proof -
  have "heap_start st' = heap_start st \<and> heap_end st' = heap_end st"
    using assms(1)
    by (auto simp: custom_free_def Let_def set_next_def split: if_splits outcome.splits option.splits)
  then show ?thesis
    using assms(2) by (simp add: grows_def dormant_def)
qed

lemma can_expand_grows:
  assumes "can_expand b s st = Returns (ok, st1)"
  shows "heap_start st1 = heap_start st \<and> heap_end st \<le> heap_end st1 \<and> heap_start st \<noteq> NULL"
  using assms expand_heap_grows [of b "s + HDR" st]
  by (auto simp: can_expand_def Let_def split: if_splits outcome.splits)

lemma realloc_copy_grows:
  assumes "realloc_copy p s old st = Returns (r, st')" "dormant st"
  shows "grows st st'"
proof -
  obtain new st1 where m: "custom_malloc s st = Returns (new, st1)"
    using assms(1) by (auto simp: realloc_copy_def split: outcome.splits)
  note g1 = custom_malloc_grows [OF m assms(2)]
  show ?thesis
  proof (cases "new = NULL")
    case True
    then show ?thesis using assms(1) m g1 by (simp add: realloc_copy_def)
  next
    case False
    define st2 where "st2 = st1\<lparr>mem := memcpy (mem st1) new p (dsize_of st1 old)\<rparr>"
    have g2: "grows st st2"
      using g1 by (simp add: grows_def st2_def)
    have "custom_free p st2 = Returns st'"
      using assms(1) m False
      by (auto simp: realloc_copy_def Let_def st2_def split: outcome.splits)
    then have "grows st2 st'"
      using custom_free_grows grows_dormant [OF g2] by blast
    then show ?thesis
      using g2 grows_trans by blast
  qed
qed

lemma custom_realloc_grows:
  assumes "custom_realloc p s st = Returns (r, st')" "dormant st"
  shows "grows st st'"
proof (cases "p = NULL")
  case True
  then show ?thesis
    using assms custom_malloc_grows by (simp add: custom_realloc_def)
next
  case False
  note p = False
  show ?thesis
  proof (cases "s = 0")
    case True
    then show ?thesis
      using assms p custom_free_grows [of p st]
      by (auto simp: custom_realloc_def split: outcome.splits)
  next
    case False
    obtain old prev where fb: "find_block (p - HDR) st = Returns (old, prev)"
      using assms(1) p False by (auto simp: custom_realloc_def Let_def split: outcome.splits)
    show ?thesis
    proof (cases "old = NULL \<or> old = CORRUPT")
      case True
      then have "st' = st"
        using assms(1) p False fb by (auto simp: custom_realloc_def Let_def split: if_splits)
      then show ?thesis
        using assms(2) by (simp add: grows_refl)
    next
      case False
      then obtain ok st1 where ce: "can_expand old s st = Returns (ok, st1)"
        using assms(1) p \<open>s \<noteq> 0\<close> fb
        by (auto simp: custom_realloc_def Let_def split: outcome.splits)
      note g = can_expand_grows [OF ce]
      have g1: "grows st st1"
        using g by (simp add: grows_def)
      show ?thesis
      proof (cases ok)
        case True
        then have "st' = set_dsize old s st1"
          using assms(1) p \<open>s \<noteq> 0\<close> fb False ce by (simp add: custom_realloc_def)
        then show ?thesis
          using g by (simp add: grows_def set_dsize_def)
      next
        case nok: False
        then have "realloc_copy p s old st1 = Returns (r, st')"
          using assms(1) p \<open>s \<noteq> 0\<close> fb False ce by (simp add: custom_realloc_def)
        then have "grows st1 st'"
          using realloc_copy_grows grows_dormant [OF g1] by blast
        then show ?thesis
          using g1 grows_trans by blast
      qed
    qed
  qed
qed

lemma custom_calloc_grows:
  assumes "custom_calloc n e st = Returns (r, st')" "dormant st"
  shows "grows st st'"
proof (cases "n = 0 \<or> e = 0")
  case True
  then show ?thesis
    using assms by (auto simp: custom_calloc_def grows_refl)
next
  case False
  then obtain a st1 where m: "custom_malloc (n * e) st = Returns (a, st1)"
    using assms(1) by (auto simp: custom_calloc_def Let_def split: outcome.splits)
  note g = custom_malloc_grows [OF m assms(2)]
  have "st' = st1 \<or> st' = st1\<lparr>mem := memset (mem st1) a 0 (n * e)\<rparr>"
    using assms(1) False m by (auto simp: custom_calloc_def Let_def split: if_splits)
  then show ?thesis
    using g by (auto simp: grows_def)
qed

lemma step_grows:
  assumes "step c st = Returns st'" "dormant st"
  shows "grows st st'"
proof (cases c)
  case (Malloc s)
  then show ?thesis
    using assms custom_malloc_grows [of s st]
    by (auto simp: step_def split: outcome.splits)
next
  case (Realloc p s)
  then show ?thesis
    using assms custom_realloc_grows [of p s st]
    by (auto simp: step_def split: outcome.splits)
next
  case (Calloc n e)
  then show ?thesis
    using assms custom_calloc_grows [of n e st]
    by (auto simp: step_def split: outcome.splits)
next
  case (Free p)
  then show ?thesis
    using assms custom_free_grows [of p st] by (simp add: step_def)
qed

lemma run_grows:
  "run cs st = Returns st' \<Longrightarrow> dormant st \<Longrightarrow> grows st st'"
proof (induction cs arbitrary: st)
  case Nil
  then show ?case by (simp add: grows_refl)
next
  case (Cons c cs)
  then obtain st1 where 1: "step c st = Returns st1" and 2: "run cs st1 = Returns st'"
    by (auto split: outcome.splits)
  have g1: "grows st st1"
    using step_grows [OF 1 Cons.prems(2)] .
  have "grows st1 st'"
    using Cons.IH [OF 2 grows_dormant [OF g1]] .
  then show ?case
    using g1 grows_trans by blast
qed

text \<open>
  Claim C9. Take any sequence of calls of the four public operations, from the start
  of the program on, and any two moments of it, the second later than the first: if
  \<^verbatim>\<open>heap_start\<close> is not null at the first moment, it has the same value at the second,
  and \<^verbatim>\<open>heap_end\<close> at the second moment is not below \<^verbatim>\<open>heap_end\<close> at the first.
\<close>

theorem start_fixed_end_monotone:
  assumes "run cs (initial m answers) = Returns st1" and "run cs' st1 = Returns st2"
  shows "(heap_start st1 \<noteq> NULL \<longrightarrow> heap_start st2 = heap_start st1) \<and>
         heap_end st1 \<le> heap_end st2"
proof -
  have "dormant (initial m answers)"
    by (simp add: dormant_def initial_def)
  then have "dormant st1"
    using run_grows [OF assms(1)] grows_dormant by blast
  then have "grows st1 st2"
    using run_grows [OF assms(2)] by blast
  then show ?thesis
    by (simp add: grows_def)
qed

theorem start_fixed_end_monotone_witness:
  "heap_start one_block \<noteq> NULL \<and> heap_start with_gap = heap_start one_block \<and>
   heap_end one_block \<le> heap_end with_gap \<and>
   heap_start one_block = 0x1000 \<and> heap_end one_block = 0x103A \<and> heap_end with_gap = 0x109C"
proof -
  have 1: "run [Malloc 10] (initial (\<lambda>_. 0) [0x1000, 0x103A, 0x1066, 0x109C]) = Returns one_block"
    by (simp add: one_block_def fresh_def run_simps mem_simps)
  have 2: "run [Malloc 20, Malloc 30, Free 0x1052] one_block = Returns with_gap"
    by (simp add: with_gap_def one_block_def fresh_def run_simps mem_simps)
  have 3: "heap_start one_block = 0x1000 \<and> heap_end one_block = 0x103A"
    by (simp add: one_block_def fresh_def run_simps mem_simps)
  have 4: "heap_end with_gap = 0x109C"
    by (simp add: with_gap_def fresh_def run_simps mem_simps)
  show ?thesis
    using start_fixed_end_monotone [OF 1 2] 3 4 by (simp add: NULL_def)
qed

section \<open>Resizing in place without room\<close>

lemma one_block_facts:
  "heap_start one_block = 0x1000" "heap_end one_block = 0x103A"
  "dsize_of one_block 0x1000 = 0" "next_of one_block 0x1000 = 0x1018"
  "dsize_of one_block 0x1018 = 10" "next_of one_block 0x1018 = NULL"
  "find_block 0x1018 one_block = Returns (0x1018, Some 0x1000)"
  by (simp_all add: one_block_def fresh_def run_simps mem_simps)

lemma exhausted_facts:
  "heap_start exhausted = 0x1000" "heap_end exhausted = 0x103A"
  "dsize_of exhausted 0x1018 = 10" "next_of exhausted 0x1018 = NULL"
  "sbrk_answers exhausted = []"
  "find_block 0x1018 exhausted = Returns (0x1018, Some 0x1000)"
  by (simp_all add: exhausted_def tight_def run_simps mem_simps)

lemma two_blocks_facts:
  "heap_start two_blocks = 0x1000" "heap_end two_blocks = 0x1066"
  "dsize_of two_blocks 0x1018 = 10" "next_of two_blocks 0x1018 = 0x103A"
  "dsize_of two_blocks 0x103A = 20" "next_of two_blocks 0x103A = NULL"
  "find_block 0x1018 two_blocks = Returns (0x1018, Some 0x1000)"
  by (simp_all add: two_blocks_def fresh_def run_simps mem_simps)

lemma next_of_set_dsize: "next_of (set_dsize h v st) h = next_of st h"
  by (simp add: next_of_def set_dsize_def load64_store64_apart)

text \<open>
  Claim C1, at the input that shows the defect. After \<^verbatim>\<open>a = malloc(10); b = malloc(20)\<close>
  the block of \<open>a\<close> (header at \<^verbatim>\<open>0x1018\<close>, data at \<^verbatim>\<open>0x1030\<close>, 10 bytes) is followed
  at once by the header of \<open>b\<close> at \<^verbatim>\<open>0x103A\<close>. For \<^verbatim>\<open>realloc(a, 1000)\<close> the new data
  end \<^verbatim>\<open>0x1418\<close> lies 990 bytes behind the start of that header, and still
  \<^verbatim>\<open>can_expand\<close> answers true, the recorded size becomes 1000 in place and \<open>a\<close> is
  returned, with the header of \<open>b\<close> now inside the data of \<open>a\<close>.
\<close>

theorem in_place_growth_without_room:
  "next_of two_blocks 0x1018 = 0x103A \<and>
   0x1018 + HDR + 1000 = (0x1418 :: addr) \<and>
   can_expand 0x1018 1000 two_blocks = Returns (True, two_blocks) \<and>
   custom_realloc 0x1030 1000 two_blocks = Returns (0x1030, set_dsize 0x1018 1000 two_blocks) \<and>
   dsize_of (set_dsize 0x1018 1000 two_blocks) 0x1018 = 1000 \<and>
   next_of (set_dsize 0x1018 1000 two_blocks) 0x1018 = 0x103A"
  by (simp add: two_blocks_facts custom_realloc_def can_expand_def HDR_def NULL_def CORRUPT_def
      dsize_of_set_dsize next_of_set_dsize)

text \<open>
  Claim C3, at the input that shows the defect. After \<^verbatim>\<open>a = malloc(10)\<close> the block of \<open>a\<close>
  is the last one and ends at \<^verbatim>\<open>heap_end = 0x103A\<close>; the system grants no further
  memory. \<^verbatim>\<open>realloc(a, 1000)\<close> needs the region to grow, \<^verbatim>\<open>expand_heap\<close> reports the
  failure with -1, \<^verbatim>\<open>can_expand\<close> drops that result and answers true, and the call
  returns \<open>a\<close>, not null, with the recorded size set to 1000 while \<^verbatim>\<open>heap_end\<close> is
  still \<^verbatim>\<open>0x103A\<close>.
\<close>

theorem last_block_growth_failure_ignored:
  "next_of exhausted 0x1018 = NULL \<and>
   heap_end exhausted = 0x103A \<and>
   expand_heap 0x1018 (1000 + HDR) exhausted = Returns (- 1, exhausted) \<and>
   can_expand 0x1018 1000 exhausted = Returns (True, exhausted) \<and>
   custom_realloc 0x1030 1000 exhausted = Returns (0x1030, set_dsize 0x1018 1000 exhausted) \<and>
   dsize_of exhausted 0x1018 = 10 \<and>
   dsize_of (set_dsize 0x1018 1000 exhausted) 0x1018 = 1000 \<and>
   heap_end (set_dsize 0x1018 1000 exhausted) = 0x103A"
  by (simp add: exhausted_facts custom_realloc_def can_expand_def expand_heap_def sbrk_def
      HDR_def NULL_def CORRUPT_def SBRK_FAILED_def dsize_of_set_dsize set_dsize_globals)

section \<open>Calls that fail\<close>

lemma header_fields:
  "dsize_of (set_magic h m st) h = dsize_of st h"
  "dsize_of (set_next h n st) h = dsize_of st h"
  "magic_of (set_magic h m st) h = m"
  "magic_of (set_dsize h d st) h = magic_of st h"
  "magic_of (set_next h n st) h = magic_of st h"
  "next_of (set_next h n st) h = n"
  "next_of (set_magic h m st) h = next_of st h"
  by (simp_all add: dsize_of_def magic_of_def next_of_def set_dsize_def set_magic_def set_next_def
      mem_simps)

lemma sbrk_same: "sbrk n st = (r, st1) \<Longrightarrow> same_heap st st1"
  using sbrk_globals [of n st r st1] by (simp add: same_heap_def)

lemma expand_heap_failed:
  assumes "expand_heap b bsize st = Returns (rc, st1)" "rc = - 1"
  shows "same_heap st st1"
proof (cases "b + bsize > heap_end st")
  case True
  obtain r st0 where sb: "sbrk (ucast (b + bsize - heap_end st)) st = (r, st0)"
    by (cases "sbrk (ucast (b + bsize - heap_end st)) st")
  show ?thesis
    using assms True sb sbrk_same [OF sb]
    by (auto simp: expand_heap_def Let_def split: if_splits)
next
  case False
  then show ?thesis
    using assms by (auto simp: expand_heap_def Let_def split: if_splits)
qed

lemma init_heap_result:
  assumes "init_heap bsize st = Returns st1"
  shows "(heap_start st1 = NULL \<and> heap_end st1 = heap_end st \<and> mem st1 = mem st) \<or>
         (\<exists>r rs. sbrk_answers st = r # rs \<and> r \<noteq> SBRK_FAILED \<and> heap_start st1 = r \<and> r \<noteq> NULL \<and>
            dsize_of st1 r = 0 \<and> next_of st1 r = NULL)"
proof -
  obtain r st0 where sb: "sbrk (ucast (HDR + bsize)) st = (r, st0)"
    by (cases "sbrk (ucast (HDR + bsize)) st")
  note g = sbrk_globals [OF sb]
  show ?thesis
  proof (cases "r = SBRK_FAILED")
    case True
    then show ?thesis
      using assms sb g by (auto simp: init_heap_def Let_def)
  next
    case False
    then have ans: "\<exists>rs. sbrk_answers st = r # rs"
      using sb by (auto simp: sbrk_def split: list.splits)
    have r: "r \<noteq> NULL"
      using assms sb False
      by (auto simp: init_heap_def Let_def insert_block_def split: outcome.splits if_splits)
    then have "st1 = (set_next r NULL (set_magic r MAGIC (set_dsize r 0 (st0\<lparr>heap_start := r\<rparr>))))
                 \<lparr>heap_end := r + (HDR + bsize)\<rparr>"
      using assms sb False
      by (auto simp: init_heap_def Let_def insert_block_def set_dsize_def set_magic_def set_next_def)
    then have "heap_start st1 = r \<and> dsize_of st1 r = 0 \<and> next_of st1 r = NULL"
      by (simp add: dsize_of_def next_of_def set_dsize_def set_magic_def set_next_def mem_simps)
    then show ?thesis
      using ans False r by simp
  qed
qed

lemma find_opening_loop_last:
  "next_of st cur = NULL \<Longrightarrow>
   find_opening_loop st bsize cur = Some (Opening (cur + (HDR + dsize_of st cur)) cur NULL)"
  by (subst find_opening_loop.simps) (simp add: Let_def)

lemma custom_malloc_null:
  assumes "custom_malloc s st = Returns (NULL, st')" "header_below_top st s"
  shows "same_heap st st'"
proof -
  define bsize where "bsize = HDR + s"
  have stage2: "\<not> ji \<and> same_heap st1 st'"
    if "heap_start st1 \<noteq> NULL"
      and fit: "\<And>a prev nxt. find_opening bsize st1 = Returns (Opening a prev nxt) \<Longrightarrow> unat a + 24 < 2 ^ 64"
      and r: "(case find_opening bsize st1 of
                  Aborts \<Rightarrow> Aborts
                | Diverges \<Rightarrow> Diverges
                | Returns Corrupted \<Rightarrow> Returns (NULL, st1)
                | Returns (Opening malloc_block_start prev nxt) \<Rightarrow>
                    if malloc_block_start = NULL then Returns (NULL, st1)
                    else
                      (case (if nxt = NULL \<and> \<not> ji
                             then expand_heap malloc_block_start bsize st1
                             else Returns (0, st1)) of
                         Aborts \<Rightarrow> Aborts
                       | Diverges \<Rightarrow> Diverges
                       | Returns (rc, st2) \<Rightarrow>
                           if rc = - 1 then Returns (NULL, st2)
                           else
                             (case insert_block malloc_block_start s prev nxt st2 of
                                Aborts \<Rightarrow> Aborts
                              | Diverges \<Rightarrow> Diverges
                              | Returns st3 \<Rightarrow> Returns (malloc_block_start + HDR, st3)))) = Returns (NULL, st')"
      and ji: "ji \<Longrightarrow> \<exists>a. find_opening bsize st1 = Returns (Opening a (heap_start st1) NULL) \<and> a \<noteq> NULL"
    for st1 ji
  proof (cases "find_opening bsize st1")
    case (Returns op)
    show ?thesis
    proof (cases op)
      case Corrupted
      then show ?thesis using r Returns ji by (auto simp: same_heap_def)
    next
      case (Opening a prev nxt)
      note w = header_wrap [OF fit [OF Returns [unfolded Opening]]]
      show ?thesis
      proof (cases "a = NULL")
        case True
        then show ?thesis using r Returns Opening ji by (auto simp: same_heap_def)
      next
        case False
        obtain rc st2 where e: "(if nxt = NULL \<and> \<not> ji then expand_heap a bsize st1 else Returns (0, st1)) = Returns (rc, st2)"
          using r Returns Opening False by (auto split: outcome.splits)
        have rc: "rc = - 1" and st': "st' = st2"
          using r Returns Opening False e w(1)
          by (auto split: outcome.splits if_splits)
        have nji: "\<not> ji"
          using e rc ji Returns Opening by (auto split: if_splits)
        then have "expand_heap a bsize st1 = Returns (rc, st2)"
          using e rc by (auto split: if_splits)
        then show ?thesis
          using expand_heap_failed rc st' nji by blast
      qed
    qed
  next
    case Aborts
    then show ?thesis using r by simp
  next
    case Diverges
    then show ?thesis using r by simp
  qed
  show ?thesis
  proof (cases "heap_start st = NULL")
    case False
    have fit: "unat a + 24 < 2 ^ 64" if "find_opening bsize st = Returns (Opening a prev nxt)" for a prev nxt
      using assms(2) False that by (simp add: header_below_top_def bsize_def)
    show ?thesis
      using assms(1) False stage2 [of st False, OF False fit]
      by (simp add: custom_malloc_def bsize_def [symmetric] Let_def)
  next
    case True
    then obtain st1 where ih: "init_heap bsize st = Returns st1"
      using assms by (auto simp: custom_malloc_def bsize_def [symmetric] Let_def split: outcome.splits)
    from init_heap_result [OF ih] show ?thesis
    proof
      assume a: "heap_start st1 = NULL \<and> heap_end st1 = heap_end st \<and> mem st1 = mem st"
      then have "st' = st1"
        using assms(1) True ih by (simp add: custom_malloc_def bsize_def [symmetric] Let_def)
      then show ?thesis
        using a True by (simp add: same_heap_def)
    next
      assume "\<exists>r rs. sbrk_answers st = r # rs \<and> r \<noteq> SBRK_FAILED \<and> heap_start st1 = r \<and> r \<noteq> NULL \<and>
            dsize_of st1 r = 0 \<and> next_of st1 r = NULL"
      then obtain r rs where a: "sbrk_answers st = r # rs" "r \<noteq> SBRK_FAILED" "heap_start st1 = r"
        "r \<noteq> NULL" "dsize_of st1 r = 0" "next_of st1 r = NULL"
        by blast
      have top: "unat r + 48 < 2 ^ 64"
        using assms(2) True a by (simp add: header_below_top_def)
      have fo: "find_opening bsize st1 = Returns (Opening (r + HDR) r NULL)"
        using a by (simp add: find_opening_def find_opening_loop_last)
      have u: "unat (r + HDR) = unat r + 24"
        using top unat_plus_if' [of r 24] by (simp add: HDR_def)
      have ne: "r + HDR \<noteq> NULL"
        using header_wrap(1) [of r] top by simp
      have "\<not> True \<and> same_heap st1 st'"
      proof (rule stage2)
        show "heap_start st1 \<noteq> NULL" using a by simp
        show "unat b + 24 < 2 ^ 64" if "find_opening bsize st1 = Returns (Opening b prev nxt)" for b prev nxt
          using that fo u top by auto
        show "\<exists>b. find_opening bsize st1 = Returns (Opening b (heap_start st1) NULL) \<and> b \<noteq> NULL"
          using fo ne a by simp
        show "(case find_opening bsize st1 of
                  Aborts \<Rightarrow> Aborts
                | Diverges \<Rightarrow> Diverges
                | Returns Corrupted \<Rightarrow> Returns (NULL, st1)
                | Returns (Opening malloc_block_start prev nxt) \<Rightarrow>
                    if malloc_block_start = NULL then Returns (NULL, st1)
                    else
                      (case (if nxt = NULL \<and> \<not> True
                             then expand_heap malloc_block_start bsize st1
                             else Returns (0, st1)) of
                         Aborts \<Rightarrow> Aborts
                       | Diverges \<Rightarrow> Diverges
                       | Returns (rc, st2) \<Rightarrow>
                           if rc = - 1 then Returns (NULL, st2)
                           else
                             (case insert_block malloc_block_start s prev nxt st2 of
                                Aborts \<Rightarrow> Aborts
                              | Diverges \<Rightarrow> Diverges
                              | Returns st3 \<Rightarrow> Returns (malloc_block_start + HDR, st3)))) = Returns (NULL, st')"
          using assms(1) True ih a by (simp add: custom_malloc_def bsize_def [symmetric] Let_def)
      qed
      then show ?thesis
        by simp
    qed
  qed
qed

lemma custom_realloc_null:
  assumes "custom_realloc p s st = Returns (NULL, st')" "p \<noteq> NULL" "s \<noteq> 0"
  shows "st' = st"
proof -
  obtain old prev where fb: "find_block (p - HDR) st = Returns (old, prev)"
    using assms by (auto simp: custom_realloc_def Let_def split: outcome.splits)
  show ?thesis
  proof (cases "old = NULL \<or> old = CORRUPT")
    case True
    then show ?thesis
      using assms fb by (auto simp: custom_realloc_def Let_def split: if_splits)
  next
    case False
    then obtain st1 where "custom_realloc p s st = Returns (p, st1)"
      using custom_realloc_found [OF assms(2,3) fb] by blast
    then show ?thesis
      using assms by simp
  qed
qed

text \<open>
  Claim C2 as the specification states it fails: \<^verbatim>\<open>custom_realloc(a, 0)\<close> returns null
  and has released the block. After \<^verbatim>\<open>a = malloc(10)\<close> the dummy head at \<^verbatim>\<open>0x1000\<close>
  is linked to the header of \<open>a\<close> at \<^verbatim>\<open>0x1018\<close>; after the call it is linked to nothing.
\<close>

theorem resize_to_zero_releases:
  "custom_realloc 0x1030 0 one_block = Returns (NULL, set_next 0x1000 NULL one_block) \<and>
   next_of one_block 0x1000 = 0x1018 \<and>
   next_of (set_next 0x1000 NULL one_block) 0x1000 = NULL"
  by (simp add: one_block_facts custom_realloc_def custom_free_def header_fields HDR_def NULL_def
      CORRUPT_def)

text \<open>
  Claim C2, amended. A call of \<^verbatim>\<open>custom_malloc\<close> that returns null leaves
  \<^verbatim>\<open>heap_start\<close>, \<^verbatim>\<open>heap_end\<close> and every byte of the memory as they were, hence the
  list of headers and the data of every block too, provided the place found for the
  new header is below the top of the address space (otherwise the null pointer can be
  the data pointer of a block that was inserted). A call of \<^verbatim>\<open>custom_realloc(p, s)\<close>
  with \<open>p\<close> not null and \<open>s > 0\<close> that returns null leaves the whole state as it was;
  with \<open>p\<close> null it is \<^verbatim>\<open>custom_malloc(s)\<close>. \<^verbatim>\<open>custom_free\<close> leaves the state as it
  was whenever it does not unlink a block. What the claim has to give up is
  \<^verbatim>\<open>custom_realloc(p, 0)\<close>, which releases \<open>p\<close> and returns null.
\<close>

theorem failure_leaves_heap:
  "(custom_malloc s st = Returns (NULL, st') \<and> header_below_top st s \<longrightarrow> same_heap st st') \<and>
   (custom_realloc p s st = Returns (NULL, st') \<and> p \<noteq> NULL \<and> s \<noteq> 0 \<longrightarrow> st' = st) \<and>
   (custom_realloc NULL s st = Returns (NULL, st') \<and> header_below_top st s \<longrightarrow> same_heap st st') \<and>
   (p = NULL \<or> heap_start st = NULL \<or> p - HDR = heap_start st \<or>
    (\<exists>prev. find_block (p - HDR) st = Returns (NULL, prev)) \<or>
    (\<exists>prev. find_block (p - HDR) st = Returns (CORRUPT, prev)) \<longrightarrow>
      custom_free p st = Returns st)"
proof -
  have "custom_realloc NULL s st = custom_malloc s st"
    by (simp add: custom_realloc_def)
  moreover have "p = NULL \<or> heap_start st = NULL \<or> p - HDR = heap_start st \<or>
    (\<exists>prev. find_block (p - HDR) st = Returns (NULL, prev)) \<or>
    (\<exists>prev. find_block (p - HDR) st = Returns (CORRUPT, prev)) \<longrightarrow>
      custom_free p st = Returns st"
    by (auto simp: custom_free_def)
  ultimately show ?thesis
    using custom_malloc_null [of s st st'] custom_realloc_null [of p s st st'] by simp
qed

theorem failure_leaves_heap_witness:
  "custom_malloc 12 exhausted = Returns (NULL, exhausted) \<and> header_below_top exhausted 12 \<and>
   same_heap exhausted exhausted \<and>
   custom_malloc 12 (initial (\<lambda>_. 0) []) = Returns (NULL, initial (\<lambda>_. 0) []) \<and>
   header_below_top (initial (\<lambda>_. 0) []) 12 \<and>
   custom_realloc 0x2000 5 one_block = Returns (NULL, one_block) \<and>
   custom_realloc 0x1030 5 smashed = Returns (NULL, smashed) \<and>
   custom_realloc NULL 12 exhausted = Returns (NULL, exhausted) \<and>
   custom_free 0x2000 one_block = Returns one_block"
proof -
  have 1: "custom_malloc 12 exhausted = Returns (NULL, exhausted)"
    by (simp add: exhausted_def tight_def run_simps mem_simps)
  have 2: "header_below_top exhausted 12"
    by (simp add: header_below_top_def exhausted_def tight_def run_simps mem_simps)
  have 3: "custom_malloc 12 (initial (\<lambda>_. 0) []) = Returns (NULL, initial (\<lambda>_. 0) [])"
    by (simp add: run_simps)
  have 4: "header_below_top (initial (\<lambda>_. 0) []) 12"
    by (simp add: header_below_top_def initial_def NULL_def)
  have 5: "custom_realloc 0x2000 5 one_block = Returns (NULL, one_block)"
    by (simp add: one_block_def fresh_def run_simps mem_simps)
  have 6: "custom_realloc 0x1030 5 smashed = Returns (NULL, smashed)"
    by (simp add: smashed_def one_block_def fresh_def run_simps mem_simps)
  have 7: "find_block (0x2000 - HDR) one_block = Returns (NULL, Some 0x1018)"
    by (simp add: one_block_def fresh_def run_simps mem_simps)
  have 8: "custom_realloc NULL 12 exhausted = Returns (NULL, exhausted)"
    using 1 by (simp add: custom_realloc_def)
  show ?thesis
    using failure_leaves_heap [of 12 exhausted exhausted "0x2000" ]
      failure_leaves_heap [of 5 one_block one_block "0x2000"]
      failure_leaves_heap [of 12 "initial (\<lambda>_. 0) []" "initial (\<lambda>_. 0) []" NULL]
      1 2 3 4 5 6 7 8
    by (simp add: NULL_def)
qed

section \<open>First fit\<close>

































section \<open>The copy path\<close>

lemma load_bytes_memset_apart:
  assumes "k \<le> unat (b - a)" "unat n \<le> unat (a - b)"
  shows "load_bytes (memset m b c n) a k = load_bytes m a k"
proof (rule load_bytes_cong)
  fix i
  assume "i < k"
  then have "unat n \<le> unat (a + of_nat i - b)"
    using assms apart_byte by blast
  then show "memset m b c n (a + of_nat i) = m (a + of_nat i)"
    by (simp add: memset_def word_less_nat_alt)
qed

lemma load_bytes_memcpy_apart:
  assumes "k \<le> unat (b - a)" "unat n \<le> unat (a - b)"
  shows "load_bytes (memcpy m b src n) a k = load_bytes m a k"
proof (rule load_bytes_cong)
  fix i
  assume "i < k"
  then have "unat n \<le> unat (a + of_nat i - b)"
    using assms apart_byte by blast
  then show "memcpy m b src n (a + of_nat i) = m (a + of_nat i)"
    by (simp add: memcpy_def word_less_nat_alt)
qed

lemma load_memset_apart:
  "8 \<le> unat (b - a) \<Longrightarrow> unat n \<le> unat (a - b) \<Longrightarrow> load64 (memset m b c n) a = load64 m a"
  "4 \<le> unat (b - a) \<Longrightarrow> unat n \<le> unat (a - b) \<Longrightarrow> load32 (memset m b c n) a = load32 m a"
  by (simp_all add: load64_def load32_def load_bytes_memset_apart)

lemma load_memcpy_apart:
  "8 \<le> unat (b - a) \<Longrightarrow> unat n \<le> unat (a - b) \<Longrightarrow> load64 (memcpy m b src n) a = load64 m a"
  "4 \<le> unat (b - a) \<Longrightarrow> unat n \<le> unat (a - b) \<Longrightarrow> load32 (memcpy m b src n) a = load32 m a"
  by (simp_all add: load64_def load32_def load_bytes_memcpy_apart)

lemma byte_simps:
  "x - b < n \<Longrightarrow> memset m b c n x = c"
  "\<not> x - b < n \<Longrightarrow> memset m b c n x = m x"
  "x - b < n \<Longrightarrow> memcpy m b src n x = m (src + (x - b))"
  "\<not> x - b < n \<Longrightarrow> memcpy m b src n x = m x"
  "8 \<le> unat (x - a) \<Longrightarrow> store64 m a v x = m x"
  "4 \<le> unat (x - a) \<Longrightarrow> store32 m a w x = m x"
  by (simp_all add: memset_def memcpy_def store64_def store32_def store_bytes_def)

lemma unat_minus_1_addr: "unat (- 1 :: addr) = 18446744073709551615"
  by (simp add: unsigned_minus_1_eq_mask mask_eq_exp_minus_1)

lemmas eval_simps = run_simps mem_simps load_memset_apart load_memcpy_apart byte_simps
  unat_minus_1_addr

lemma written_data:
  "mem written 0x1030 = 0xAA" "mem written 0x1039 = 0xAA"
  by (simp_all add: written_def two_blocks_def fresh_def eval_simps)

text \<open>
  Claim C4, at the input that shows the defect. After \<^verbatim>\<open>a = malloc(10); b = malloc(20)\<close>
  and ten bytes written to \<open>a\<close>, the list is the dummy head, the block of \<open>a\<close> (header
  at \<^verbatim>\<open>0x1018\<close>) and the block of \<open>b\<close> (header at \<^verbatim>\<open>0x103A\<close>), and \<open>a\<close> cannot grow to
  1000 bytes in place: its data would end at \<^verbatim>\<open>0x1418\<close>, behind the header of \<open>b\<close>.
  This is a call for the copy path. \<^verbatim>\<open>custom_realloc(a, 1000)\<close> does not take it: it
  returns \<open>a\<close> itself, the list holds the same three headers afterwards, so no block
  was allocated and the old block is still linked, and \<^verbatim>\<open>heap_end\<close> has not moved.
\<close>

theorem no_room_resize_stays_in_place:
  "hlist written 0x1000 [0x1000, 0x1018, 0x103A] \<and>
   dsize_of written 0x1018 = 10 \<and>
   0x1018 + HDR + 1000 = (0x1418 :: addr) \<and>
   custom_realloc 0x1030 1000 written = Returns (0x1030, set_dsize 0x1018 1000 written) \<and>
   hlist (set_dsize 0x1018 1000 written) 0x1000 [0x1000, 0x1018, 0x103A] \<and>
   heap_end (set_dsize 0x1018 1000 written) = heap_end written"
proof -
  have 1: "hlist written 0x1000 [0x1000, 0x1018, 0x103A]" "dsize_of written 0x1018 = 10"
    by (simp_all add: written_def two_blocks_def fresh_def eval_simps)
  have 2: "custom_realloc 0x1030 1000 written = Returns (0x1030, set_dsize 0x1018 1000 written)"
    by (simp add: written_def two_blocks_def fresh_def eval_simps)
  have 3: "hlist (set_dsize 0x1018 1000 written) 0x1000 [0x1000, 0x1018, 0x103A]"
    by (simp add: written_def two_blocks_def fresh_def eval_simps)
  show ?thesis
    using 1 2 3 by (simp add: set_dsize_globals HDR_def)
qed

text \<open>
  What lines 235 to 243 do when they are entered at that input, for comparison: the
  new block goes behind the block of \<open>b\<close> (header at \<^verbatim>\<open>0x1066\<close>, data at \<^verbatim>\<open>0x107E\<close>,
  1000 bytes), the ten bytes of \<open>a\<close> are copied to it, the block of \<open>a\<close> leaves the
  list and the new pointer is returned.
\<close>

lemma copy_path_at_that_input:
  "realloc_copy 0x1030 1000 0x1018 written = Returns (0x107E, copied) \<and>
   hlist copied 0x1000 [0x1000, 0x103A, 0x1066] \<and>
   dsize_of copied 0x1066 = 1000 \<and>
   mem copied 0x107E = 0xAA \<and> mem copied 0x1087 = 0xAA \<and> mem copied 0x1088 = 0"
proof -
  have 1: "realloc_copy 0x1030 1000 0x1018 written = Returns (0x107E, copied)"
    by (simp add: copied_def written_def two_blocks_def fresh_def eval_simps)
  have 2: "hlist copied 0x1000 [0x1000, 0x103A, 0x1066]" "dsize_of copied 0x1066 = 1000"
    by (simp_all add: copied_def written_def two_blocks_def fresh_def eval_simps)
  have 3: "mem copied 0x107E = 0xAA" "mem copied 0x1087 = 0xAA" "mem copied 0x1088 = 0"
    by (simp_all add: copied_def written_def two_blocks_def fresh_def eval_simps)
  show ?thesis
    using 1 2 3 by simp
qed

end
